theory Spec2Isabelle
  imports Complex_Main "HOL-Library.Multiset" "HOL-Library.Log_Nat"
begin

section \<open>Feed ranking (SmartLogic.ts)\<close>

subsection \<open>Data model (types.ts)\<close>

text \<open>
  The fields of \<open>Video\<close> that the ranking and the prefetch code read, and
  \<open>UserInteractions\<close>. The field \<open>id\<close> is called \<open>video_id\<close> here, since \<open>id\<close> is the
  identity function of HOL. A JavaScript number is modelled as the real that it
  denotes; the arithmetic of the score rounds each result to a double (see below).
\<close>

record video =
  video_id :: string
  category :: string
  is_trending :: bool
  video_url :: string
  poster_url :: "string option"

record history_entry =
  entry_id :: string
  progress :: real

record user_interactions =
  likedIds :: "string list"
  dislikedIds :: "string list"
  savedIds :: "string list"
  savedCategoryNames :: "string list"
  watchHistory :: "history_entry list"
  downloadedIds :: "string list"

subsection \<open>Double-precision arithmetic\<close>

text \<open>
  A JavaScript number is an IEEE 754 double: a 53-bit significand and an exponent from
  -1022 to 1023, with subnormal numbers (multiples of \<open>2 powi - 1074\<close>) below
  \<open>2 powi - 1022\<close>. Each arithmetic operation returns the exact result rounded to the
  nearest double, a tie going to the even significand. \<open>fl64\<close> is that rounding on the
  reals: \<open>ilog2 x\<close> is the exponent \<open>e\<close> with \<open>2 powi e \<le> x < 2 powi (e + 1)\<close>,
  \<open>ulp_exp x\<close> the exponent of the spacing of the doubles around \<open>x\<close>. The overflow to
  \<open>Infinity\<close> (beyond \<open>2 powi 1024\<close>) is not modelled: the numbers of the ranking stay
  below 80. A number \<open>x\<close> is a double when \<open>fl64 x = x\<close>.
\<close>

definition round_half_even :: "real \<Rightarrow> int" where
  "round_half_even z =
     (let f = \<lfloor>z\<rfloor>; d = z - of_int f
      in if d < 1 / 2 then f
         else if 1 / 2 < d then f + 1
         else if even f then f else f + 1)"

definition ilog2 :: "real \<Rightarrow> int" where
  "ilog2 x =
     (if 1 \<le> x then int (floorlog 2 (nat \<lfloor>x\<rfloor>)) - 1
      else - int (floorlog 2 (nat (\<lceil>1 / x\<rceil> - 1))))"

definition ulp_exp :: "real \<Rightarrow> int" where
  "ulp_exp x = max (ilog2 \<bar>x\<bar>) (- 1022) - 52"

definition fl64 :: "real \<Rightarrow> real" where
  "fl64 x =
     (if x = 0 then 0
      else sgn x * of_int (round_half_even (\<bar>x\<bar> / 2 powi ulp_exp x)) * 2 powi ulp_exp x)"



subsection \<open>The random source and the engine's sort\<close>

text \<open>
  \<open>Math.random()\<close> is an injected source: an infinite sequence of numbers (doubles of
  \<open>[0, 1)\<close> in an engine), of which each call takes the head.
\<close>

type_synonym rng = "nat \<Rightarrow> real"

definition Math_random :: "rng \<Rightarrow> real \<times> rng" where
  "Math_random g = (g 0, \<lambda>n. g (Suc n))"

text \<open>
  \<open>Array.prototype.sort(compareFn)\<close>. A compare function may have an effect (one of the
  source calls \<open>Math.random\<close>), so it takes a state \<open>'s\<close> and returns it; a pure compare
  function passes it on. The engine is modelled as a stable insertion sort: each element
  is placed behind every element of the sorted prefix that the compare function does not
  put after it (\<open>compareFn(y, x) \<le> 0\<close>). For a consistent compare function every
  conforming engine returns this list; for \<open>() => 0.5 - Math.random()\<close> the order is
  left to the engine, and nothing below depends on it.
\<close>

type_synonym ('a, 's) compareFn = "'a \<Rightarrow> 'a \<Rightarrow> 's \<Rightarrow> real \<times> 's"

fun sort_insert :: "('a, 's) compareFn \<Rightarrow> 'a \<Rightarrow> 'a list \<Rightarrow> 's \<Rightarrow> 'a list \<times> 's" where
  "sort_insert cmp x [] g = ([x], g)"
| "sort_insert cmp x (y # ys) g =
     (case cmp y x g of (c, g') \<Rightarrow>
        if c \<le> 0
        then (case sort_insert cmp x ys g' of (r, g'') \<Rightarrow> (y # r, g''))
        else (x # y # ys, g'))"

fun array_sort_from ::
  "('a, 's) compareFn \<Rightarrow> 'a list \<Rightarrow> 'a list \<Rightarrow> 's \<Rightarrow> 'a list \<times> 's" where
  "array_sort_from cmp acc [] g = (acc, g)"
| "array_sort_from cmp acc (x # xs) g =
     (case sort_insert cmp x acc g of (acc', g') \<Rightarrow> array_sort_from cmp acc' xs g')"

definition array_sort :: "('a, 's) compareFn \<Rightarrow> 'a list \<Rightarrow> 's \<Rightarrow> 'a list \<times> 's" where
  "array_sort cmp xs g = array_sort_from cmp [] xs g"

text \<open>The two compare functions of the source: \<open>(a, b) => b.score - a.score\<close> and
  \<open>() => 0.5 - Math.random()\<close>.\<close>

definition by_score_desc :: "(video \<times> real, 's) compareFn" where
  "by_score_desc a b g = (fl64 (snd b - snd a), g)"

definition coin_flip :: "(video, rng) compareFn" where
  "coin_flip a b g = (case Math_random g of (r, g') \<Rightarrow> (fl64 (0.5 - r), g'))"

subsection \<open>generateVideoFeed\<close>

text \<open>
  The score of one video, given the value of \<open>Math.random()\<close> (lines 63 to 73): the
  product and each sum is a double.
\<close>

definition score_of :: "string list \<Rightarrow> video \<Rightarrow> real \<Rightarrow> real" where
  "score_of localInterests v r =
     (let score = fl64 (r * 10);
          score = (if category v \<in> set localInterests then fl64 (score + 50) else score);
          score = (if is_trending v then fl64 (score + 20) else score)
      in score)"

text \<open>\<open>unwatchedPool.map(video => ...)\<close>: one draw for each video, in the pool's order.\<close>

fun score_videos :: "string list \<Rightarrow> video list \<Rightarrow> rng \<Rightarrow> (video \<times> real) list \<times> rng" where
  "score_videos localInterests [] g = ([], g)"
| "score_videos localInterests (v # vs) g =
     (case Math_random g of (r, g') \<Rightarrow>
        case score_videos localInterests vs g' of (rest, g'') \<Rightarrow>
          ((v, score_of localInterests v r) # rest, g''))"

text \<open>The deduplication filter of lines 96 to 101, with its set of seen ids.\<close>

fun uniqueFeed :: "string set \<Rightarrow> video list \<Rightarrow> video list" where
  "uniqueFeed seenIds [] = []"
| "uniqueFeed seenIds (v # vs) =
     (if video_id v \<in> seenIds then uniqueFeed seenIds vs
      else v # uniqueFeed (insert (video_id v) seenIds) vs)"

definition watchedIds_of :: "user_interactions \<Rightarrow> string set" where
  "watchedIds_of interactions =
     set (map entry_id (filter (\<lambda>h. progress h > 0.80) (watchHistory interactions)))"

definition unwatchedPool_of :: "video list \<Rightarrow> user_interactions \<Rightarrow> video list" where
  "unwatchedPool_of allVideos interactions =
     filter (\<lambda>v. video_id v \<notin> watchedIds_of interactions
                \<and> video_id v \<notin> set (dislikedIds interactions)) allVideos"

definition watchedPool_of :: "video list \<Rightarrow> user_interactions \<Rightarrow> video list" where
  "watchedPool_of allVideos interactions =
     filter (\<lambda>v. video_id v \<in> watchedIds_of interactions
                \<and> video_id v \<notin> set (dislikedIds interactions)) allVideos"

text \<open>
  The method reads the field \<open>localInterests\<close> of its object; it is the first argument
  here. The result is the feed; the random source is the last argument.
\<close>

definition generateVideoFeed ::
  "string list \<Rightarrow> video list \<Rightarrow> user_interactions \<Rightarrow> rng \<Rightarrow> video list" where
  "generateVideoFeed localInterests allVideos interactions g =
     (if allVideos = [] then []
      else
        let unwatchedPool = unwatchedPool_of allVideos interactions;
            watchedPool = watchedPool_of allVideos interactions;
            (finalFeed, g1) =
              (if unwatchedPool \<noteq> [] then
                 (case score_videos localInterests unwatchedPool g of (scored, g') \<Rightarrow>
                    case array_sort by_score_desc scored g' of (sorted_scored, g'') \<Rightarrow>
                      (map fst sorted_scored, g''))
               else array_sort coin_flip watchedPool g);
            (finalFeed, g2) =
              (if finalFeed = [] \<and> allVideos \<noteq> []
               then array_sort coin_flip allVideos g1
               else (finalFeed, g1))
        in uniqueFeed {} finalFeed)"




section \<open>Chunked prefetch cache (smartCache.ts)\<close>

text \<open>
  A promise either resolves with a value or rejects; an \<open>await\<close> of a rejected promise
  throws.
\<close>

datatype 'a promise = Resolved 'a | Rejected

record http_response =
  http_status :: nat
  content_type_header :: "string option"
  body :: "nat list"

definition response_ok :: "nat \<Rightarrow> bool" where
  "response_ok st \<longleftrightarrow> 200 \<le> st \<and> st \<le> 299"

text \<open>The response that \<open>bufferVideoChunk\<close> builds and stores (lines 31 to 39).\<close>

record cached_response =
  cached_status :: nat
  cached_content_type :: string
  cached_content_length :: nat
  cached_smart_buffer :: bool
  cached_body :: "nat list"

text \<open>
  What the browser and the network answer: whether \<open>caches.open\<close> and \<open>cache.match\<close> work
  at all, the outcome of the \<open>n\<close>-th network fetch (counted from 0) for a URL, and whether
  reading the body of the \<open>n\<close>-th response and the \<open>cache.put\<close> that follows succeed.
\<close>

record cache_env =
  caches_available :: bool
  net_fetch :: "nat \<Rightarrow> string \<Rightarrow> http_response promise"
  cache_put_ok :: "nat \<Rightarrow> bool"

text \<open>
  The state: the bucket \<open>rooh-video-buffer-v4\<close>, which holds at most one response for a
  URL (\<open>cache.put\<close> replaces the entry of a matching request), and the list of the URLs
  fetched from the network so far, oldest first.
\<close>

record cache_world =
  video_buffer :: "string \<rightharpoonup> cached_response"
  fetch_log :: "string list"

definition startsWith :: "string \<Rightarrow> string \<Rightarrow> bool" where
  "startsWith s p \<longleftrightarrow> take (length p) s = p"

definition newResponse :: "http_response \<Rightarrow> cached_response" where
  "newResponse response =
     \<lparr>cached_status = 200,
      cached_content_type =
        (case content_type_header response of
           None \<Rightarrow> ''video/mp4''
         | Some c \<Rightarrow> if c = [] then ''video/mp4'' else c),
      cached_content_length = length (body response),
      cached_smart_buffer = True,
      cached_body = body response\<rparr>"

text \<open>
  Every exception between \<open>try\<close> and \<open>catch\<close> ends the call with the state reached so
  far: a missing cache storage, a rejected fetch, a failed write.
\<close>

definition bufferVideoChunk :: "cache_env \<Rightarrow> string \<Rightarrow> cache_world \<Rightarrow> cache_world" where
  "bufferVideoChunk env url w =
     (if url = [] \<or> \<not> startsWith url ''http'' then w
      else if \<not> caches_available env then w
      else case video_buffer w url of
        Some cachedResponse \<Rightarrow> w
      | None \<Rightarrow>
          let n = length (fetch_log w);
              w1 = w\<lparr>fetch_log := fetch_log w @ [url]\<rparr>
          in case net_fetch env n url of
               Rejected \<Rightarrow> w1
             | Resolved response \<Rightarrow>
                 if response_ok (http_status response) \<or> http_status response = 206
                 then (if cache_put_ok env n
                       then w1\<lparr>video_buffer := (video_buffer w1)(url \<mapsto> newResponse response)\<rparr>
                       else w1)
                 else w1)"

section \<open>Narration key pool (elevenLabsManager.ts)\<close>

subsection \<open>Probing and ordering the keys\<close>

datatype key_status = Active | Empty | Error

record KeyStats =
  key :: string
  used :: int
  limit :: int
  remaining :: int
  status :: key_status

text \<open>
  The answer of the subscription endpoint for a key: the request or the parsing of its
  body throws, the status is not ok, or the body arrives with the two fields read from it
  (\<open>None\<close> for a field that is missing).
\<close>

datatype probe_reply =
    Probe_threw
  | Probe_not_ok
  | Probe_body (character_count: "int option") (character_limit: "int option")

definition or_zero :: "int option \<Rightarrow> int" where
  "or_zero x = (case x of None \<Rightarrow> 0 | Some n \<Rightarrow> n)"

definition checkKeyUsage :: "(string \<Rightarrow> probe_reply) \<Rightarrow> string \<Rightarrow> KeyStats" where
  "checkKeyUsage probe apiKey =
     (case probe apiKey of
        Probe_threw \<Rightarrow> \<lparr>key = apiKey, used = 0, limit = 0, remaining = - 1, status = Error\<rparr>
      | Probe_not_ok \<Rightarrow> \<lparr>key = apiKey, used = 0, limit = 0, remaining = - 1, status = Error\<rparr>
      | Probe_body c l \<Rightarrow>
          let used = or_zero c;
              limit = or_zero l;
              remaining = limit - used
          in \<lparr>key = apiKey, used = used, limit = limit, remaining = remaining,
              status = (if remaining > 100 then Active else Empty)\<rparr>)"

text \<open>The compare function of lines 85 to 93.\<close>

definition compare_stats :: "(KeyStats, 's) compareFn" where
  "compare_stats a b s =
     (if status a = Active \<and> status b \<noteq> Active then (- 1, s)
      else if status a \<noteq> Active \<and> status b = Active then (1, s)
      else if status a = Active \<and> status b = Active
           then (real_of_int (remaining b - remaining a), s)
      else (0, s))"

text \<open>The loop of lines 76 to 80: a key shorter than 10 characters is skipped.\<close>

fun collect_stats :: "(string \<Rightarrow> probe_reply) \<Rightarrow> string list \<Rightarrow> KeyStats list" where
  "collect_stats probe [] = []"
| "collect_stats probe (k # ks) =
     (if length k < 10 then collect_stats probe ks
      else checkKeyUsage probe k # collect_stats probe ks)"

subsection \<open>The narration session and the persisted configuration\<close>

text \<open>
  The document \<open>settings/api_config\<close>: each field may be missing. The state of the
  module and of its collaborators:
  \<^item> \<open>currentAudio\<close>: the audio element, named by the number of the narration request
    whose response it plays;
  \<^item> \<open>audioListeners\<close>: the subscribed listeners, by identity;
  \<^item> \<open>delivered\<close>: every call \<open>listener(isPlaying)\<close> made so far, oldest first (a
    listener is the values it receives: it returns and does not throw);
  \<^item> \<open>api_config\<close>: the persisted document, \<open>None\<close> when it does not exist;
  \<^item> \<open>db_calls\<close>: the number of \<open>getDoc\<close> and \<open>updateDoc\<close> calls made so far;
  \<^item> \<open>tts_calls\<close>: the narration requests made so far, each with its key and text;
  \<^item> \<open>probe_calls\<close>: the keys probed so far.
\<close>

record config_doc =
  elevenlabs_keys :: "string list option"
  elevenlabs_index :: "int option"

record narration_world =
  currentAudio :: "nat option"
  audioListeners :: "nat list"
  delivered :: "(nat \<times> bool) list"
  api_config :: "config_doc option"
  db_calls :: nat
  tts_calls :: "(string \<times> nat list) list"
  probe_calls :: "string list"

text \<open>
  The answer to a narration request: \<open>fetch\<close> rejects, or a response arrives with its
  status and with whether its body can be read as a blob.
\<close>

datatype tts_reply = Tts_rejected | Tts_response (tts_status: nat) (blob_readable: bool)

text \<open>
  What the outside answers: the \<open>n\<close>-th narration request (counted from 0), whether the
  \<open>n\<close>-th database call throws, and the subscription endpoint for each key (the same
  answer each time a key is probed).
\<close>

record narration_env =
  tts_reply_of :: "nat \<Rightarrow> tts_reply"
  db_fails :: "nat \<Rightarrow> bool"
  subscription_of :: "string \<Rightarrow> probe_reply"

definition optimizeKeyOrder ::
  "narration_env \<Rightarrow> string list \<Rightarrow> narration_world \<Rightarrow> string list \<times> narration_world" where
  "optimizeKeyOrder env keys w =
     (if keys = [] then ([], w)
      else
        let stats = collect_stats (subscription_of env) keys;
            w1 = w\<lparr>probe_calls := probe_calls w @ map key stats\<rparr>;
            sorted_stats = fst (array_sort compare_stats stats ())
        in (map key sorted_stats, w1))"

definition subscribeToAudioState :: "nat \<Rightarrow> narration_world \<Rightarrow> narration_world" where
  "subscribeToAudioState listener w = w\<lparr>audioListeners := audioListeners w @ [listener]\<rparr>"

definition unsubscribe :: "nat \<Rightarrow> narration_world \<Rightarrow> narration_world" where
  "unsubscribe listener w =
     w\<lparr>audioListeners := filter (\<lambda>l. l \<noteq> listener) (audioListeners w)\<rparr>"

definition notifyListeners :: "bool \<Rightarrow> narration_world \<Rightarrow> narration_world" where
  "notifyListeners isPlaying w =
     w\<lparr>delivered := delivered w @ map (\<lambda>listener. (listener, isPlaying)) (audioListeners w)\<rparr>"

definition stopCurrentNarrative :: "narration_world \<Rightarrow> narration_world" where
  "stopCurrentNarrative w =
     (case currentAudio w of
        None \<Rightarrow> w
      | Some audio \<Rightarrow> notifyListeners False (w\<lparr>currentAudio := None\<rparr>))"

text \<open>
  The result of \<open>getActiveKeyData\<close>. \<open>keys[currentIndex]\<close> is \<open>undefined\<close> for a negative
  index, which is \<open>None\<close> here; the guard of line 118 excludes an index beyond the end.
\<close>

record key_data =
  kd_key :: "string option"
  kd_index :: int
  totalKeys :: nat
  allKeys :: "string list"

definition getActiveKeyData ::
  "narration_env \<Rightarrow> narration_world \<Rightarrow> key_data option \<times> narration_world" where
  "getActiveKeyData env w =
     (let w1 = w\<lparr>db_calls := Suc (db_calls w)\<rparr>
      in if db_fails env (db_calls w) then (None, w1)
         else case api_config w of
           None \<Rightarrow> (None, w1)
         | Some data \<Rightarrow>
             let keys = (case elevenlabs_keys data of None \<Rightarrow> [] | Some ks \<Rightarrow> ks);
                 currentIndex = or_zero (elevenlabs_index data)
             in if keys = [] then (None, w1)
                else
                  let currentIndex =
                        (if currentIndex \<ge> int (length keys) then 0 else currentIndex)
                  in (Some \<lparr>kd_key = (if 0 \<le> currentIndex
                                       then Some (keys ! nat currentIndex) else None),
                            kd_index = currentIndex,
                            totalKeys = length keys,
                            allKeys = keys\<rparr>, w1))"

text \<open>\<open>updateDoc\<close> throws when the document does not exist; the function catches it.\<close>

definition switchToNextKey :: "narration_env \<Rightarrow> int \<Rightarrow> narration_world \<Rightarrow> narration_world" where
  "switchToNextKey env oldIndex w =
     (let w1 = w\<lparr>db_calls := Suc (db_calls w)\<rparr>
      in if db_fails env (db_calls w) then w1
         else case api_config w of
           None \<Rightarrow> w1
         | Some data \<Rightarrow> w1\<lparr>api_config := Some (data\<lparr>elevenlabs_index := Some (oldIndex + 1)\<rparr>)\<rparr>)"

subsection \<open>The text of a narration\<close>

text \<open>
  A JavaScript string is a list of UTF-16 code units. \<open>trim\<close> removes the white space and
  the line terminators of ECMAScript at both ends. The regular expression of line 152 has
  no \<open>u\<close> flag, so it reads code units: one unit of U+2011 to U+26FF, U+2700 to U+27BF or
  U+E000 to U+F8FF, or a pair of a high surrogate U+D83C, U+D83D (with any low surrogate)
  or U+D83E (with a low surrogate of U+DD10 to U+DDFF). The alternatives exclude one
  another at a position, and \<open>replace\<close> with the \<open>g\<close> flag goes from left to right.
\<close>

definition isWhiteSpace :: "nat \<Rightarrow> bool" where
  "isWhiteSpace c \<longleftrightarrow>
     c \<in> {9, 10, 11, 12, 13, 32, 160, 5760, 8232, 8233, 8239, 8287, 12288, 65279}
       \<or> (8192 \<le> c \<and> c \<le> 8202)"

definition trim :: "nat list \<Rightarrow> nat list" where
  "trim s = rev (dropWhile isWhiteSpace (rev (dropWhile isWhiteSpace s)))"

definition symbol_unit :: "nat \<Rightarrow> bool" where
  "symbol_unit c \<longleftrightarrow>
     (9984 \<le> c \<and> c \<le> 10175) \<or> (57344 \<le> c \<and> c \<le> 63743) \<or> (8209 \<le> c \<and> c \<le> 9983)"

definition symbol_pair :: "nat \<Rightarrow> nat \<Rightarrow> bool" where
  "symbol_pair c d \<longleftrightarrow>
     ((c = 55356 \<or> c = 55357) \<and> 56320 \<le> d \<and> d \<le> 57343)
       \<or> (c = 55358 \<and> 56592 \<le> d \<and> d \<le> 56831)"

fun strip_symbols :: "nat list \<Rightarrow> nat list" where
  "strip_symbols [] = []"
| "strip_symbols [c] = (if symbol_unit c then [] else [c])"
| "strip_symbols (c # d # cs) =
     (if symbol_unit c then strip_symbols (d # cs)
      else if symbol_pair c d then strip_symbols cs
      else c # strip_symbols (d # cs))"

subsection \<open>playNarrative\<close>

text \<open>
  A call completes normally or throws. The body of the \<open>try\<close> block yields one or the
  other together with the state it reached; \<open>catch_notify\<close> is the \<open>catch\<close> block of lines
  220 to 223. On success the audio element is kept; what its event handlers deliver
  happens after the call.
\<close>

datatype completion = Normal | Throw string

definition catch_notify :: "completion \<times> narration_world \<Rightarrow> completion \<times> narration_world" where
  "catch_notify r =
     (case r of
        (Normal, w) \<Rightarrow> (Normal, w)
      | (Throw e, w) \<Rightarrow> (Normal, notifyListeners False w))"

function playNarrative ::
  "narration_env \<Rightarrow> nat list \<Rightarrow> nat \<Rightarrow> narration_world \<Rightarrow> completion \<times> narration_world" where
  "playNarrative env text retryCount w =
     (if retryCount > 3 then (Normal, notifyListeners False w)
      else
        let w = stopCurrentNarrative w
        in if text = [] \<or> trim text = [] then (Normal, w)
           else
             let cleanText = trim (strip_symbols text)
             in if cleanText = [] then (Normal, w)
                else case getActiveKeyData env w of (keyData, w) \<Rightarrow>
                  (case keyData of
                     None \<Rightarrow> (Normal, notifyListeners False w)
                   | Some kd \<Rightarrow>
                       (case kd_key kd of
                          None \<Rightarrow> (Normal, notifyListeners False w)
                        | Some k \<Rightarrow>
                            if k = [] then (Normal, notifyListeners False w)
                            else
                              let n = length (tts_calls w);
                                  w = w\<lparr>tts_calls := tts_calls w @ [(k, cleanText)]\<rparr>
                              in catch_notify
                                (case tts_reply_of env n of
                                   Tts_rejected \<Rightarrow> (Throw ''fetch'', w)
                                 | Tts_response st readable \<Rightarrow>
                                     if \<not> response_ok st then
                                       (if st = 401 \<or> st = 429 \<or> st = 402
                                        then playNarrative env text (retryCount + 1)
                                               (switchToNextKey env (kd_index kd) w)
                                        else (Throw ''ElevenLabs API Error'', w))
                                     else if \<not> readable then (Throw ''blob'', w)
                                     else (Normal, w\<lparr>currentAudio := Some n\<rparr>)))))"
  by pat_completeness auto
termination
  by (relation "measure (\<lambda>(env, text, retryCount, w). 4 - retryCount)") auto

text \<open>The last value that a listener received, if it received any.\<close>

definition last_delivered :: "nat \<Rightarrow> narration_world \<Rightarrow> bool option" where
  "last_delivered listener w =
     (case filter (\<lambda>d. fst d = listener) (delivered w) of
        [] \<Rightarrow> None
      | d # ds \<Rightarrow> Some (snd (last (d # ds))))"

declare playNarrative.simps [simp del]

section \<open>Example inputs\<close>

text \<open>Concrete videos, interaction states and random sources for the instances below.\<close>

definition ex_video :: "string \<Rightarrow> string \<Rightarrow> bool \<Rightarrow> video" where
  "ex_video i c t =
     \<lparr>video_id = i, category = c, is_trending = t,
      video_url = ''https://cdn.example/'' @ i, poster_url = None\<rparr>"

definition ex_interactions :: "string list \<Rightarrow> history_entry list \<Rightarrow> user_interactions" where
  "ex_interactions d h =
     \<lparr>likedIds = [], dislikedIds = d, savedIds = [], savedCategoryNames = [],
      watchHistory = h, downloadedIds = []\<rparr>"

definition ex_corpus :: "video list" where
  "ex_corpus = [ex_video ''a'' ''horror'' False, ex_video ''b'' ''ghosts'' True]"

text \<open>A corpus in which the id \<open>a\<close> occurs twice.\<close>

definition ex_corpus_dup :: "video list" where
  "ex_corpus_dup = [ex_video ''a'' ''horror'' False, ex_video ''a'' ''horror'' False]"

definition ex_fresh :: user_interactions where
  "ex_fresh = ex_interactions [] []"

definition ex_all_disliked :: user_interactions where
  "ex_all_disliked = ex_interactions [''a'', ''b''] []"

definition ex_all_watched :: user_interactions where
  "ex_all_watched =
     ex_interactions []
       [\<lparr>entry_id = ''a'', progress = 0.9\<rparr>, \<lparr>entry_id = ''b'', progress = 1\<rparr>]"

definition ex_rng :: rng where
  "ex_rng = (\<lambda>n. 0)"

text \<open>
  Two videos of the category \<open>horror\<close>, and a random source whose first two values are
  the doubles \<open>1/2\<close> and the next one above it: with the interest \<open>horror\<close> both scores
  round to 55.
\<close>

definition ex_corpus_horror :: "video list" where
  "ex_corpus_horror = [ex_video ''a'' ''horror'' False, ex_video ''b'' ''horror'' False]"

definition ex_rng_tie :: rng where
  "ex_rng_tie = (\<lambda>n. if n = 0 then 1 / 2 else if n = 1 then 1 / 2 + 1 / 2 ^ 52 else 0)"

text \<open>
  A network that answers every fetch with status 500 or with status 206 and three bytes,
  an empty bucket, and a media URL.
\<close>

definition ex_env_500 :: cache_env where
  "ex_env_500 =
     \<lparr>caches_available = True,
      net_fetch = (\<lambda>n url. Resolved \<lparr>http_status = 500, content_type_header = None, body = []\<rparr>),
      cache_put_ok = (\<lambda>n. True)\<rparr>"

definition ex_env_206 :: cache_env where
  "ex_env_206 =
     \<lparr>caches_available = True,
      net_fetch = (\<lambda>n url. Resolved \<lparr>http_status = 206, content_type_header = None,
                                     body = [0, 0, 1]\<rparr>),
      cache_put_ok = (\<lambda>n. True)\<rparr>"

definition ex_empty_cache :: cache_world where
  "ex_empty_cache = \<lparr>video_buffer = Map.empty, fetch_log = []\<rparr>"

definition ex_url :: string where
  "ex_url = ''https://cdn.example/a.mp4''"

text \<open>
  Three keys of valid length; the subscription endpoint reports 110 characters left for
  the first, 200 for the second, and fails for every other key. The records
  \<open>ex_stats_abc\<close> are those of the example of section 8 of the specification.
\<close>

definition ex_key_a :: string where "ex_key_a = ''key-aaaaaaaa''"
definition ex_key_b :: string where "ex_key_b = ''key-bbbbbbbb''"
definition ex_key_c :: string where "ex_key_c = ''key-cccccccc''"

definition ex_keys :: "string list" where
  "ex_keys = [ex_key_a, ex_key_b, ex_key_c]"

definition ex_probe :: "string \<Rightarrow> probe_reply" where
  "ex_probe k =
     (if k = ex_key_a then Probe_body (Some 9890) (Some 10000)
      else if k = ex_key_b then Probe_body (Some 9800) (Some 10000)
      else Probe_not_ok)"

definition ex_stats_abc :: "KeyStats list" where
  "ex_stats_abc =
     [\<lparr>key = ''a'', used = 0, limit = 10, remaining = 10, status = Active\<rparr>,
      \<lparr>key = ''b'', used = 0, limit = 100, remaining = 100, status = Active\<rparr>,
      \<lparr>key = ''c'', used = 0, limit = 0, remaining = - 1, status = Error\<rparr>]"

text \<open>
  An outside whose narration endpoint answers every request with the given status and
  whose database never fails; a state with two listeners, no audio, and the three keys
  persisted with the given index.
\<close>

definition ex_narration_env :: "nat \<Rightarrow> narration_env" where
  "ex_narration_env st =
     \<lparr>tts_reply_of = (\<lambda>n. Tts_response st True),
      db_fails = (\<lambda>n. False),
      subscription_of = ex_probe\<rparr>"

definition ex_world :: "int \<Rightarrow> narration_world" where
  "ex_world i =
     \<lparr>currentAudio = None, audioListeners = [0, 1], delivered = [],
      api_config = Some \<lparr>elevenlabs_keys = Some ex_keys, elevenlabs_index = Some i\<rparr>,
      db_calls = 0, tts_calls = [], probe_calls = []\<rparr>"

text \<open>The same state while a narration plays.\<close>

definition ex_world_playing :: narration_world where
  "ex_world_playing = (ex_world 0)\<lparr>currentAudio := Some 0\<rparr>"

text \<open>The texts \<open>hello\<close>, two spaces, and a sparkles sign (U+2728) after a space.\<close>

definition ex_hello :: "nat list" where
  "ex_hello = [104, 101, 108, 108, 111]"

definition ex_blank :: "nat list" where
  "ex_blank = [32, 32]"

definition ex_sparkles :: "nat list" where
  "ex_sparkles = [32, 10024]"

section \<open>Orders used in the statements\<close>

text \<open>
  The order that section 4.3 of the specification asks of the reordered keys: no key
  that is not active stands before an active one, and among active keys the remaining
  quota goes down.
\<close>

definition key_order :: "KeyStats \<Rightarrow> KeyStats \<Rightarrow> bool" where
  "key_order a b \<longleftrightarrow>
     (status b = Active \<longrightarrow> status a = Active)
     \<and> (status a = Active \<and> status b = Active \<longrightarrow> remaining b \<le> remaining a)"

text \<open>The number that the compare function of the keys returns.\<close>

definition stats_cmp :: "KeyStats \<Rightarrow> KeyStats \<Rightarrow> real" where
  "stats_cmp a b = fst (compare_stats a b ())"

text \<open>
  A text is speakable when \<open>playNarrative\<close> goes on to resolve a key for it: it is not
  empty, not only white space, and something is left of it once the symbols are
  stripped. A state ends on \<open>false\<close> when the last value that each of its listeners
  received is \<open>false\<close>.
\<close>

definition speakable :: "nat list \<Rightarrow> bool" where
  "speakable text \<longleftrightarrow> text \<noteq> [] \<and> trim text \<noteq> [] \<and> trim (strip_symbols text) \<noteq> []"

definition ends_on_false :: "narration_world \<Rightarrow> bool" where
  "ends_on_false w \<longleftrightarrow> (\<forall>l \<in> set (audioListeners w). last_delivered l w = Some False)"

text \<open>A status that makes \<open>playNarrative\<close> rotate the key: 401, 402 or 429.\<close>

definition rotating_status :: "nat \<Rightarrow> bool" where
  "rotating_status st \<longleftrightarrow> st = 401 \<or> st = 402 \<or> st = 429"

text \<open>
  The state in which \<open>playNarrative\<close> awaits the answer to a narration request made with
  the key \<open>k\<close>: the audio stopped, the configuration read, the request logged.
\<close>

definition attempt_world ::
  "narration_env \<Rightarrow> nat list \<Rightarrow> narration_world \<Rightarrow> string \<Rightarrow> narration_world" where
  "attempt_world env text w k =
     (snd (getActiveKeyData env (stopCurrentNarrative w)))
       \<lparr>tts_calls := tts_calls w @ [(k, trim (strip_symbols text))]\<rparr>"

section \<open>Properties of the rounding to doubles\<close>

lemma fl64_zero [simp]: "fl64 0 = 0"
  by (simp add: fl64_def)


















text \<open>
  The rounding on known values: the double nearest to one tenth, and the sum of the
  doubles of 0.1 and 0.2, which is the double above that of 0.3.
\<close>

lemmas fl64_eval = fl64_def ulp_exp_def ilog2_def round_half_even_def compute_floorlog Let_def

lemma fl64_tenth: "fl64 (1 / 10) = 3602879701896397 / 2 ^ 55"
  by (simp add: fl64_eval)

lemma fl64_tenth_plus_fifth:
  "fl64 (fl64 (1 / 10) + fl64 (2 / 10)) = 5404319552844596 / 2 ^ 54
   \<and> fl64 (3 / 10) = 5404319552844595 / 2 ^ 54"
  by (simp add: fl64_eval)

section \<open>Properties of the feed ranking\<close>

subsection \<open>The sort permutes, the filter deduplicates\<close>

lemma mset_sort_insert: "mset (fst (sort_insert cmp x ys g)) = add_mset x (mset ys)"
proof (induction ys arbitrary: g)
  case Nil
  then show ?case by simp
next
  case (Cons y ys)
  obtain c g' where c: "cmp y x g = (c, g')" by (cases "cmp y x g")
  obtain r g'' where r: "sort_insert cmp x ys g' = (r, g'')"
    by (cases "sort_insert cmp x ys g'")
  from Cons.IH [of g'] r have "mset r = add_mset x (mset ys)" by simp
  with c r show ?case by simp
qed

lemma mset_array_sort_from:
  "mset (fst (array_sort_from cmp acc xs g)) = mset acc + mset xs"
proof (induction xs arbitrary: acc g)
  case Nil
  then show ?case by simp
next
  case (Cons x xs)
  show ?case
  proof (cases "sort_insert cmp x acc g")
    case (Pair acc' g')
    then have "mset acc' = add_mset x (mset acc)"
      using mset_sort_insert [of cmp x acc g] by simp
    with Pair Cons.IH [of acc' g'] show ?thesis by simp
  qed
qed

lemma mset_array_sort: "mset (fst (array_sort cmp xs g)) = mset xs"
  by (simp add: array_sort_def mset_array_sort_from)

lemma set_array_sort: "set (fst (array_sort cmp xs g)) = set xs"
  using mset_array_sort [of cmp xs g] by (metis set_mset_mset)

lemma array_sort_Nil_iff: "fst (array_sort cmp xs g) = [] \<longleftrightarrow> xs = []"
  using mset_array_sort [of cmp xs g] by (metis mset_zero_iff)

lemma uniqueFeed_subset: "set (uniqueFeed seenIds vs) \<subseteq> set vs"
  by (induction vs arbitrary: seenIds) auto

lemma uniqueFeed_fresh: "v \<in> set (uniqueFeed seenIds vs) \<Longrightarrow> video_id v \<notin> seenIds"
  by (induction vs arbitrary: seenIds) (auto split: if_splits)

lemma uniqueFeed_distinct: "distinct (map video_id (uniqueFeed seenIds vs))"
  by (induction vs arbitrary: seenIds) (auto dest: uniqueFeed_fresh)

lemma uniqueFeed_Nil_iff: "uniqueFeed {} vs = [] \<longleftrightarrow> vs = []"
  by (cases vs) auto


lemma map_fst_score_videos: "map fst (fst (score_videos li vs g)) = vs"
proof (induction vs arbitrary: g)
  case Nil
  then show ?case by simp
next
  case (Cons v vs)
  obtain r g' where r: "Math_random g = (r, g')" by (cases "Math_random g")
  obtain rest g'' where s: "score_videos li vs g' = (rest, g'')"
    by (cases "score_videos li vs g'")
  from Cons.IH [of g'] s have "map fst rest = vs" by simp
  with r s show ?case by simp
qed

subsection \<open>The three paths of generateVideoFeed\<close>

lemma array_sort_Nil [simp]: "array_sort cmp [] g = ([], g)"
  by (simp add: array_sort_def)

lemma score_videos_Nil_iff: "fst (score_videos li vs g) = [] \<longleftrightarrow> vs = []"
  using map_fst_score_videos [of li vs g] by (metis list.map_disc_iff)

lemma unwatched_path:
  assumes "unwatchedPool_of C I \<noteq> []"
  shows "generateVideoFeed li C I g =
    uniqueFeed {} (map fst (fst (array_sort by_score_desc (fst (score_videos li (unwatchedPool_of C I) g))
                          (snd (score_videos li (unwatchedPool_of C I) g)))))"
proof -
  from assms have C: "C \<noteq> []" by (auto simp: unwatchedPool_of_def)
  obtain scored g' where s: "score_videos li (unwatchedPool_of C I) g = (scored, g')"
    by (cases "score_videos li (unwatchedPool_of C I) g")
  obtain srt g'' where t: "array_sort by_score_desc scored g' = (srt, g'')"
    by (cases "array_sort by_score_desc scored g'")
  have "scored \<noteq> []" using score_videos_Nil_iff [of li "unwatchedPool_of C I" g] s assms by simp
  then have "srt \<noteq> []" using array_sort_Nil_iff [of by_score_desc scored g'] t by simp
  with assms C s t show ?thesis
    by (simp add: generateVideoFeed_def)
qed

lemma recycle_path:
  assumes "unwatchedPool_of C I = []" "watchedPool_of C I \<noteq> []"
  shows "generateVideoFeed li C I g = uniqueFeed {} (fst (array_sort coin_flip (watchedPool_of C I) g))"
proof -
  from assms have C: "C \<noteq> []" by (auto simp: watchedPool_of_def)
  obtain srt g' where t: "array_sort coin_flip (watchedPool_of C I) g = (srt, g')"
    by (cases "array_sort coin_flip (watchedPool_of C I) g")
  have "srt \<noteq> []" using array_sort_Nil_iff [of coin_flip "watchedPool_of C I" g] t assms by simp
  with assms C t show ?thesis
    by (simp add: generateVideoFeed_def)
qed

lemma safety_net_path:
  assumes "unwatchedPool_of C I = []" "watchedPool_of C I = []" "C \<noteq> []"
  shows "generateVideoFeed li C I g = uniqueFeed {} (fst (array_sort coin_flip C g))"
  using assms by (simp add: generateVideoFeed_def split: prod.splits)

subsection \<open>The claims on the feed\<close>

lemmas ex_feed_defs = ex_video_def ex_interactions_def ex_corpus_def ex_corpus_dup_def
  ex_fresh_def ex_all_disliked_def ex_all_watched_def ex_rng_def
  unwatchedPool_of_def watchedPool_of_def watchedIds_of_def

text \<open>
  Claim C1. A corpus that is not empty gives a feed that is not empty, whatever the
  interaction state: when both pools are empty (every video disliked), the safety net of
  line 90 shuffles the whole corpus, and the deduplication keeps the first video.
\<close>

theorem feed_nonempty: "C \<noteq> [] \<Longrightarrow> generateVideoFeed li C I g \<noteq> []"
proof -
  assume C: "C \<noteq> []"
  consider (a) "unwatchedPool_of C I \<noteq> []"
    | (b) "unwatchedPool_of C I = []" "watchedPool_of C I \<noteq> []"
    | (c) "unwatchedPool_of C I = []" "watchedPool_of C I = []" by blast
  then show ?thesis
  proof cases
    case a
    then show ?thesis
      by (simp add: unwatched_path uniqueFeed_Nil_iff array_sort_Nil_iff score_videos_Nil_iff)
  next
    case b
    then show ?thesis
      by (simp add: recycle_path uniqueFeed_Nil_iff array_sort_Nil_iff)
  next
    case c
    with C show ?thesis
      by (simp add: safety_net_path uniqueFeed_Nil_iff array_sort_Nil_iff)
  qed
qed

theorem feed_nonempty_witness:
  "ex_corpus \<noteq> [] \<and> generateVideoFeed [] ex_corpus ex_all_disliked ex_rng \<noteq> []"
  using feed_nonempty [of ex_corpus "[]" ex_all_disliked ex_rng]
  by (simp add: ex_corpus_def)

lemma feed_is_uniqueFeed:
  "\<exists>F. generateVideoFeed li C I g = uniqueFeed {} F \<and> set F \<subseteq> set C"
proof -
  consider (e) "C = []" | (a) "unwatchedPool_of C I \<noteq> []"
    | (b) "unwatchedPool_of C I = []" "watchedPool_of C I \<noteq> []"
    | (c) "unwatchedPool_of C I = []" "watchedPool_of C I = []" "C \<noteq> []" by blast
  then show ?thesis
  proof cases
    case e
    then have "generateVideoFeed li C I g = uniqueFeed {} []" by (simp add: generateVideoFeed_def)
    then show ?thesis by (intro exI [of _ "[]"]) simp
  next
    case a
    let ?sc = "score_videos li (unwatchedPool_of C I) g"
    let ?F = "map fst (fst (array_sort by_score_desc (fst ?sc) (snd ?sc)))"
    have "set ?F = fst ` set (fst ?sc)" by (simp add: set_array_sort)
    also have "\<dots> = set (map fst (fst ?sc))" by simp
    also have "\<dots> = set (unwatchedPool_of C I)" by (simp only: map_fst_score_videos)
    also have "\<dots> \<subseteq> set C" by (auto simp: unwatchedPool_of_def)
    finally show ?thesis using unwatched_path [OF a, of li g] by blast
  next
    case b
    have "set (fst (array_sort coin_flip (watchedPool_of C I) g)) \<subseteq> set C"
      by (auto simp: set_array_sort watchedPool_of_def)
    then show ?thesis using recycle_path [OF b, of li g] by blast
  next
    case c
    have "set (fst (array_sort coin_flip C g)) \<subseteq> set C" by (simp add: set_array_sort)
    then show ?thesis using safety_net_path [OF c, of li g] by blast
  qed
qed

text \<open>
  Claim C2. For every corpus and interaction state, no two videos of the feed have the
  same id, and every id of the feed is the id of a video of the corpus.
\<close>

theorem feed_distinct_subset:
  "distinct (map video_id (generateVideoFeed li C I g)) \<and>
   set (map video_id (generateVideoFeed li C I g)) \<subseteq> set (map video_id C)"
proof -
  obtain F where F: "generateVideoFeed li C I g = uniqueFeed {} F" "set F \<subseteq> set C"
    using feed_is_uniqueFeed by blast
  have "set (uniqueFeed {} F) \<subseteq> set C" using uniqueFeed_subset [of "{}" F] F(2) by blast
  then show ?thesis using F(1) by (auto simp: uniqueFeed_distinct)
qed

theorem feed_distinct_subset_witness:
  "distinct (map video_id (generateVideoFeed [] ex_corpus_dup ex_fresh ex_rng)) \<and>
   set (map video_id (generateVideoFeed [] ex_corpus_dup ex_fresh ex_rng)) \<subseteq> {''a''}"
  using feed_distinct_subset [of "[]" ex_corpus_dup ex_fresh ex_rng]
  by (simp add: ex_corpus_dup_def ex_video_def)



subsection \<open>Ranking the unwatched pool\<close>





text \<open>
  A pure compare function that is total, and transitive on the elements of the array,
  makes the sort a sort.
\<close>

lemma sort_insert_sorted_on:
  assumes pure: "\<And>a b s. cmp a b s = (c a b, s)"
    and total: "\<And>a b. c a b \<le> 0 \<or> c b a \<le> 0"
    and trans: "\<And>a b d. P a \<Longrightarrow> P b \<Longrightarrow> P d \<Longrightarrow> c a b \<le> 0 \<Longrightarrow> c b d \<le> 0 \<Longrightarrow> c a d \<le> 0"
    and x: "P x"
    and P: "\<forall>y \<in> set ys. P y"
    and ys: "sorted_wrt (\<lambda>a b. c a b \<le> 0) ys"
  shows "sorted_wrt (\<lambda>a b. c a b \<le> 0) (fst (sort_insert cmp x ys s))"
  using P ys
proof (induction ys)
  case Nil
  then show ?case by simp
next
  case (Cons y ys)
  obtain r s' where r: "sort_insert cmp x ys s = (r, s')"
    by (cases "sort_insert cmp x ys s")
  have setr: "set r = insert x (set ys)"
    using mset_sort_insert [of cmp x ys s] r
    by (metis fst_conv set_mset_mset set_mset_add_mset_insert)
  from Cons.prems have Pys: "\<forall>z \<in> set ys. P z" and Py: "P y" by simp_all
  from Cons.prems have sys: "sorted_wrt (\<lambda>a b. c a b \<le> 0) ys"
    and y: "\<forall>z \<in> set ys. c y z \<le> 0" by simp_all
  from Cons.IH [OF Pys sys] r have sr: "sorted_wrt (\<lambda>a b. c a b \<le> 0) r" by simp
  show ?case
  proof (cases "c y x \<le> 0")
    case True
    with y setr sr r pure [of y x s] show ?thesis by simp
  next
    case False
    with total [of y x] have xy: "c x y \<le> 0" by simp
    have "\<forall>z \<in> set ys. c x z \<le> 0" using xy y trans x Py Pys by blast
    with xy Cons.prems(2) False pure [of y x s] show ?thesis by simp
  qed
qed

lemma array_sort_from_sorted_on:
  assumes pure: "\<And>a b s. cmp a b s = (c a b, s)"
    and total: "\<And>a b. c a b \<le> 0 \<or> c b a \<le> 0"
    and trans: "\<And>a b d. P a \<Longrightarrow> P b \<Longrightarrow> P d \<Longrightarrow> c a b \<le> 0 \<Longrightarrow> c b d \<le> 0 \<Longrightarrow> c a d \<le> 0"
    and P: "\<forall>y \<in> set acc \<union> set xs. P y"
    and acc: "sorted_wrt (\<lambda>a b. c a b \<le> 0) acc"
  shows "sorted_wrt (\<lambda>a b. c a b \<le> 0) (fst (array_sort_from cmp acc xs s))"
  using P acc
proof (induction xs arbitrary: acc s)
  case Nil
  then show ?case by simp
next
  case (Cons x xs)
  obtain acc' s' where a: "sort_insert cmp x acc s = (acc', s')"
    by (cases "sort_insert cmp x acc s")
  from Cons.prems(1) have Px: "P x" and Pacc: "\<forall>y \<in> set acc. P y" by simp_all
  have "sorted_wrt (\<lambda>a b. c a b \<le> 0) (fst (sort_insert cmp x acc s))"
    using pure total trans Px Pacc Cons.prems(2) by (rule sort_insert_sorted_on)
  with a have s: "sorted_wrt (\<lambda>a b. c a b \<le> 0) acc'" by simp
  have "set acc' = insert x (set acc)"
    using mset_sort_insert [of cmp x acc s] a
    by (metis fst_conv set_mset_mset set_mset_add_mset_insert)
  with Cons.prems(1) have "\<forall>y \<in> set acc' \<union> set xs. P y" by simp
  from Cons.IH [OF this s, of s'] a show ?case by simp
qed

lemma array_sort_sorted_on:
  assumes "\<And>a b s. cmp a b s = (c a b, s)"
    and "\<And>a b. c a b \<le> 0 \<or> c b a \<le> 0"
    and "\<And>a b d. P a \<Longrightarrow> P b \<Longrightarrow> P d \<Longrightarrow> c a b \<le> 0 \<Longrightarrow> c b d \<le> 0 \<Longrightarrow> c a d \<le> 0"
    and "\<forall>y \<in> set xs. P y"
  shows "sorted_wrt (\<lambda>a b. c a b \<le> 0) (fst (array_sort cmp xs s))"
proof -
  have "sorted_wrt (\<lambda>a b. c a b \<le> 0) (fst (array_sort_from cmp [] xs s))"
    using assms(1-3) by (rule array_sort_from_sorted_on) (use assms(4) in simp_all)
  then show ?thesis by (simp add: array_sort_def)
qed

lemma array_sort_sorted:
  assumes "\<And>a b s. cmp a b s = (c a b, s)"
    and "\<And>a b. c a b \<le> 0 \<or> c b a \<le> 0"
    and "\<And>a b d. c a b \<le> 0 \<Longrightarrow> c b d \<le> 0 \<Longrightarrow> c a d \<le> 0"
  shows "sorted_wrt (\<lambda>a b. c a b \<le> 0) (fst (array_sort cmp xs s))"
  using assms(1,2) by (rule array_sort_sorted_on [where P = "\<lambda>a. True"]) (use assms(3) in blast)+





lemma feed_tie_keeps_order:
  "generateVideoFeed [''horror''] ex_corpus_horror ex_fresh ex_rng_tie = ex_corpus_horror"
  by (simp add: ex_feed_defs ex_corpus_horror_def ex_rng_tie_def generateVideoFeed_def
      array_sort_def by_score_desc_def Math_random_def score_of_def fl64_eval)



section \<open>Properties of the prefetch cache\<close>

lemma bufferVideoChunk_noop:
  "url = [] \<or> \<not> startsWith url ''http'' \<or> video_buffer w url \<noteq> None
     \<Longrightarrow> bufferVideoChunk env url w = w"
  by (auto simp: bufferVideoChunk_def)

lemma bufferVideoChunk_fetches:
  "fetch_log (bufferVideoChunk env url w) = fetch_log w
     \<or> fetch_log (bufferVideoChunk env url w) = fetch_log w @ [url]"
  by (simp add: bufferVideoChunk_def Let_def split: option.splits promise.splits)

lemma bufferVideoChunk_stores:
  assumes "url \<noteq> []" "startsWith url ''http''" "caches_available env"
    and "video_buffer w url = None"
    and "net_fetch env (length (fetch_log w)) url = Resolved response"
    and "response_ok (http_status response) \<or> http_status response = 206"
    and "cache_put_ok env (length (fetch_log w))"
  shows "bufferVideoChunk env url w =
           \<lparr>video_buffer = (video_buffer w)(url \<mapsto> newResponse response),
            fetch_log = fetch_log w @ [url]\<rparr>"
  using assms by (auto simp: bufferVideoChunk_def Let_def)

text \<open>
  Claim C8, as amended. A call with an empty URL, with a URL that does not start with
  \<open>http\<close>, or with a URL that the bucket holds already, changes nothing and fetches
  nothing. Whenever the first of two calls in sequence leaves the URL stored, the second
  changes nothing, and the two calls make at most one fetch. That is the case when the
  URL is valid and not yet stored, the fetch resolves with a status of 200 to 299 and the
  write succeeds: the two calls then leave the bucket with the one new entry for the URL
  and the log with the one fetch.
\<close>

theorem bufferVideoChunk_twice:
  "(url = [] \<or> \<not> startsWith url ''http'' \<or> video_buffer w url \<noteq> None
      \<longrightarrow> bufferVideoChunk env url w = w)
   \<and> (video_buffer (bufferVideoChunk env url w) url \<noteq> None
      \<longrightarrow> bufferVideoChunk env url (bufferVideoChunk env url w) = bufferVideoChunk env url w
        \<and> length (fetch_log (bufferVideoChunk env url (bufferVideoChunk env url w)))
            \<le> length (fetch_log w) + 1)
   \<and> (url \<noteq> [] \<and> startsWith url ''http'' \<and> caches_available env
        \<and> video_buffer w url = None
        \<and> net_fetch env (length (fetch_log w)) url = Resolved response
        \<and> (response_ok (http_status response) \<or> http_status response = 206)
        \<and> cache_put_ok env (length (fetch_log w))
      \<longrightarrow> bufferVideoChunk env url (bufferVideoChunk env url w) =
            \<lparr>video_buffer = (video_buffer w)(url \<mapsto> newResponse response),
             fetch_log = fetch_log w @ [url]\<rparr>)"
proof (intro conjI impI)
  assume "url = [] \<or> \<not> startsWith url ''http'' \<or> video_buffer w url \<noteq> None"
  then show "bufferVideoChunk env url w = w" by (rule bufferVideoChunk_noop)
next
  let ?w1 = "bufferVideoChunk env url w"
  assume c: "video_buffer ?w1 url \<noteq> None"
  then show "bufferVideoChunk env url ?w1 = ?w1" by (simp add: bufferVideoChunk_noop)
  then show "length (fetch_log (bufferVideoChunk env url ?w1)) \<le> length (fetch_log w) + 1"
    using bufferVideoChunk_fetches [of env url w] by auto
next
  assume a: "url \<noteq> [] \<and> startsWith url ''http'' \<and> caches_available env
        \<and> video_buffer w url = None
        \<and> net_fetch env (length (fetch_log w)) url = Resolved response
        \<and> (response_ok (http_status response) \<or> http_status response = 206)
        \<and> cache_put_ok env (length (fetch_log w))"
  then have 1: "bufferVideoChunk env url w =
           \<lparr>video_buffer = (video_buffer w)(url \<mapsto> newResponse response),
            fetch_log = fetch_log w @ [url]\<rparr>"
    by (intro bufferVideoChunk_stores) simp_all
  then have "video_buffer (bufferVideoChunk env url w) url \<noteq> None" by simp
  then have "bufferVideoChunk env url (bufferVideoChunk env url w) = bufferVideoChunk env url w"
    by (simp add: bufferVideoChunk_noop)
  with 1 show "bufferVideoChunk env url (bufferVideoChunk env url w) =
            \<lparr>video_buffer = (video_buffer w)(url \<mapsto> newResponse response),
             fetch_log = fetch_log w @ [url]\<rparr>" by simp
qed

lemmas ex_cache_defs = ex_env_500_def ex_env_206_def ex_empty_cache_def ex_url_def
  bufferVideoChunk_def startsWith_def response_ok_def newResponse_def

theorem bufferVideoChunk_twice_witness:
  "video_buffer (bufferVideoChunk ex_env_206 ex_url ex_empty_cache) ex_url \<noteq> None
   \<and> bufferVideoChunk ex_env_206 ex_url (bufferVideoChunk ex_env_206 ex_url ex_empty_cache)
       = bufferVideoChunk ex_env_206 ex_url ex_empty_cache
   \<and> length (fetch_log (bufferVideoChunk ex_env_206 ex_url
                (bufferVideoChunk ex_env_206 ex_url ex_empty_cache))) \<le> 1
   \<and> bufferVideoChunk ex_env_206 '''' ex_empty_cache = ex_empty_cache"
proof -
  have s: "video_buffer (bufferVideoChunk ex_env_206 ex_url ex_empty_cache) ex_url \<noteq> None"
    by (simp add: ex_cache_defs)
  have l: "length (fetch_log ex_empty_cache) = 0" by (simp add: ex_empty_cache_def)
  note t = bufferVideoChunk_twice [of ex_url ex_empty_cache ex_env_206 undefined]
  from t s have e1:
    "bufferVideoChunk ex_env_206 ex_url (bufferVideoChunk ex_env_206 ex_url ex_empty_cache)
       = bufferVideoChunk ex_env_206 ex_url ex_empty_cache"
    by blast
  from t s have
    "length (fetch_log (bufferVideoChunk ex_env_206 ex_url
               (bufferVideoChunk ex_env_206 ex_url ex_empty_cache)))
       \<le> length (fetch_log ex_empty_cache) + 1"
    by blast
  with l have e2:
    "length (fetch_log (bufferVideoChunk ex_env_206 ex_url
               (bufferVideoChunk ex_env_206 ex_url ex_empty_cache))) \<le> 1"
    by simp
  have e3: "bufferVideoChunk ex_env_206 '''' ex_empty_cache = ex_empty_cache"
    using bufferVideoChunk_twice [of "''''" ex_empty_cache ex_env_206 undefined] by blast
  from s e1 e2 e3 show ?thesis by blast
qed

text \<open>
  Claim C8 as stated fails when the first attempt fails: with a network that answers 500,
  two calls in sequence fetch twice and store nothing.
\<close>

theorem bufferVideoChunk_twice_counterexample:
  "video_buffer (bufferVideoChunk ex_env_500 ex_url
       (bufferVideoChunk ex_env_500 ex_url ex_empty_cache)) ex_url = None
   \<and> fetch_log (bufferVideoChunk ex_env_500 ex_url
       (bufferVideoChunk ex_env_500 ex_url ex_empty_cache)) = [ex_url, ex_url]"
  by (simp add: ex_cache_defs)

section \<open>Properties of the key pool\<close>

subsection \<open>Ordering the keys\<close>

lemma compare_stats_pure: "compare_stats a b s = (stats_cmp a b, s)"
  by (simp add: compare_stats_def stats_cmp_def)

lemma stats_cmp_key_order: "stats_cmp a b \<le> 0 \<longleftrightarrow> key_order a b"
  by (auto simp: compare_stats_def stats_cmp_def key_order_def)

lemma array_sort_key_order: "sorted_wrt key_order (fst (array_sort compare_stats xs s))"
proof -
  have e: "(\<lambda>a b. stats_cmp a b \<le> 0) = key_order"
    by (simp add: fun_eq_iff stats_cmp_key_order)
  have "sorted_wrt (\<lambda>a b. stats_cmp a b \<le> 0) (fst (array_sort compare_stats xs s))"
  proof (rule array_sort_sorted)
    show "\<And>a b s. compare_stats a b s = (stats_cmp a b, s)" by (rule compare_stats_pure)
    show "\<And>a b. stats_cmp a b \<le> 0 \<or> stats_cmp b a \<le> 0"
      by (auto simp: stats_cmp_key_order key_order_def)
    show "\<And>a b d. stats_cmp a b \<le> 0 \<Longrightarrow> stats_cmp b d \<le> 0 \<Longrightarrow> stats_cmp a d \<le> 0"
      by (auto simp: stats_cmp_key_order key_order_def)
  qed
  then show ?thesis by (simp only: e)
qed

lemma key_checkKeyUsage [simp]: "key (checkKeyUsage probe k) = k"
  by (simp add: checkKeyUsage_def Let_def split: probe_reply.splits)

lemma map_key_collect_stats:
  "map key (collect_stats probe ks) = filter (\<lambda>k. \<not> length k < 10) ks"
  by (induction ks) auto

lemma collect_stats_probe:
  "s \<in> set (collect_stats probe ks) \<Longrightarrow> checkKeyUsage probe (key s) = s"
  by (induction ks) (auto split: if_splits)

lemma optimizeKeyOrder_stats:
  "map (checkKeyUsage (subscription_of env)) (fst (optimizeKeyOrder env keys w)) =
     fst (array_sort compare_stats (collect_stats (subscription_of env) keys) ())"
proof (cases "keys = []")
  case True
  then show ?thesis by (simp add: optimizeKeyOrder_def)
next
  case False
  let ?st = "collect_stats (subscription_of env) keys"
  let ?so = "fst (array_sort compare_stats ?st ())"
  have "\<forall>s \<in> set ?so. checkKeyUsage (subscription_of env) (key s) = s"
    by (simp add: set_array_sort collect_stats_probe)
  then have "map (checkKeyUsage (subscription_of env)) (map key ?so) = ?so"
    by (simp add: map_idI)
  with False show ?thesis by (simp add: optimizeKeyOrder_def Let_def)
qed

lemmas ex_key_defs = ex_key_a_def ex_key_b_def ex_key_c_def ex_keys_def ex_probe_def
  ex_stats_abc_def ex_narration_env_def ex_world_def

text \<open>
  Claim C5, as amended. The result is a reordering of the input keys of at least 10
  characters (shorter ones are skipped). In it no key whose probe is not active stands
  before a key whose probe is active, and the active keys come with their remaining
  quota going down. The persisted configuration is not touched. The sort of lines 85 to
  93 puts the three records of the specification's example in the order \<open>b\<close>, \<open>a\<close>,
  \<open>c\<close>, and the function returns that order on three keys of valid length of which the
  first has 110 characters left, the second 200, and the third fails its probe.
\<close>

theorem optimizeKeyOrder_sorted:
  "mset (fst (optimizeKeyOrder env keys w)) = mset (filter (\<lambda>k. \<not> length k < 10) keys)
   \<and> sorted_wrt key_order
        (map (checkKeyUsage (subscription_of env)) (fst (optimizeKeyOrder env keys w)))
   \<and> api_config (snd (optimizeKeyOrder env keys w)) = api_config w
   \<and> map key (fst (array_sort compare_stats ex_stats_abc ())) = [''b'', ''a'', ''c'']
   \<and> fst (optimizeKeyOrder (ex_narration_env 200) ex_keys w) = [ex_key_b, ex_key_a, ex_key_c]"
proof (intro conjI)
  let ?st = "collect_stats (subscription_of env) keys"
  have "mset (map key (fst (array_sort compare_stats ?st ()))) = mset (map key ?st)"
    using mset_array_sort [of compare_stats ?st "()"] by (metis mset_map)
  then show "mset (fst (optimizeKeyOrder env keys w)) = mset (filter (\<lambda>k. \<not> length k < 10) keys)"
    by (cases "keys = []") (simp_all add: optimizeKeyOrder_def Let_def map_key_collect_stats)
  show "sorted_wrt key_order
        (map (checkKeyUsage (subscription_of env)) (fst (optimizeKeyOrder env keys w)))"
    by (simp only: optimizeKeyOrder_stats array_sort_key_order)
  show "api_config (snd (optimizeKeyOrder env keys w)) = api_config w"
    by (simp add: optimizeKeyOrder_def Let_def)
  show "map key (fst (array_sort compare_stats ex_stats_abc ())) = [''b'', ''a'', ''c'']"
    by (simp add: ex_stats_abc_def array_sort_def compare_stats_def)
  show "fst (optimizeKeyOrder (ex_narration_env 200) ex_keys w) = [ex_key_b, ex_key_a, ex_key_c]"
    by (simp add: ex_key_defs optimizeKeyOrder_def array_sort_def compare_stats_def
        checkKeyUsage_def or_zero_def)
qed

theorem optimizeKeyOrder_sorted_witness:
  "mset (fst (optimizeKeyOrder (ex_narration_env 200) [ex_key_a, ''short'', ex_key_b] (ex_world 0)))
     = mset [ex_key_a, ex_key_b]
   \<and> sorted_wrt key_order (map (checkKeyUsage ex_probe)
        (fst (optimizeKeyOrder (ex_narration_env 200) [ex_key_a, ''short'', ex_key_b] (ex_world 0))))"
  using optimizeKeyOrder_sorted [of "ex_narration_env 200" "[ex_key_a, ''short'', ex_key_b]" "ex_world 0"]
  by (simp add: ex_key_a_def ex_key_b_def ex_narration_env_def)

text \<open>
  Claim C5 as stated fails on keys shorter than 10 characters, which the loop skips: on
  the keys \<open>a\<close>, \<open>b\<close>, \<open>c\<close> of the example the result is empty, for every answer of the
  subscription endpoint.
\<close>

theorem optimizeKeyOrder_short_keys_counterexample:
  "fst (optimizeKeyOrder (ex_narration_env 200) [''a'', ''b'', ''c''] (ex_world 0)) = []
   \<and> mset (fst (optimizeKeyOrder (ex_narration_env 200) [''a'', ''b'', ''c''] (ex_world 0)))
       \<noteq> mset [''a'', ''b'', ''c'']"
  by (simp add: optimizeKeyOrder_def array_sort_def)

subsection \<open>Resolving the current key\<close>

lemmas ex_narration_defs = ex_key_a_def ex_key_b_def ex_key_c_def ex_keys_def
  ex_narration_env_def ex_world_def ex_world_playing_def ex_hello_def ex_blank_def
  ex_sparkles_def

lemmas narration_defs = getActiveKeyData_def switchToNextKey_def stopCurrentNarrative_def
  notifyListeners_def catch_notify_def or_zero_def response_ok_def trim_def isWhiteSpace_def
  symbol_unit_def symbol_pair_def rotating_status_def speakable_def Let_def

text \<open>
  Claim C4, as amended. With a key list of length \<open>n > 0\<close>, a stored index \<open>i \<ge> 0\<close>
  and a database that answers, the key resolved is \<open>keys[i]\<close> when \<open>i < n\<close> and \<open>keys[0]\<close>
  otherwise: the guard of line 118 resets an index beyond the end to 0. The position read
  is always inside the list, and it is \<open>i mod n\<close> whenever \<open>i \<le> n\<close>, which covers every
  index that \<open>switchToNextKey\<close> writes for a list that has not shrunk.
\<close>

theorem getActiveKeyData_resolves:
  assumes "api_config w = Some data"
    and "elevenlabs_keys data = Some ks" and "ks \<noteq> []"
    and "elevenlabs_index data = Some i" and "0 \<le> i"
    and "\<not> db_fails env (db_calls w)"
  shows "fst (getActiveKeyData env w) =
           Some \<lparr>kd_key = Some (ks ! nat (if i < int (length ks) then i else 0)),
                 kd_index = (if i < int (length ks) then i else 0),
                 totalKeys = length ks, allKeys = ks\<rparr>
    \<and> nat (if i < int (length ks) then i else 0) < length ks
    \<and> (i \<le> int (length ks) \<longrightarrow> (if i < int (length ks) then i else 0) = i mod int (length ks))"
  using assms by (auto simp: getActiveKeyData_def Let_def or_zero_def)

theorem getActiveKeyData_resolves_witness:
  "fst (getActiveKeyData (ex_narration_env 200) (ex_world 3)) =
     Some \<lparr>kd_key = Some ex_key_a, kd_index = 0, totalKeys = 3, allKeys = ex_keys\<rparr>
   \<and> fst (getActiveKeyData (ex_narration_env 200) (ex_world 1)) =
     Some \<lparr>kd_key = Some ex_key_b, kd_index = 1, totalKeys = 3, allKeys = ex_keys\<rparr>"
  using getActiveKeyData_resolves [of "ex_world 3"
      "\<lparr>elevenlabs_keys = Some ex_keys, elevenlabs_index = Some 3\<rparr>" ex_keys 3
      "ex_narration_env 200"]
    getActiveKeyData_resolves [of "ex_world 1"
      "\<lparr>elevenlabs_keys = Some ex_keys, elevenlabs_index = Some 1\<rparr>" ex_keys 1
      "ex_narration_env 200"]
  by (simp add: ex_world_def ex_keys_def ex_narration_env_def)

text \<open>
  Claim C4 as stated fails for an index beyond the length: with three keys and the stored
  index 4 the first key is resolved, while \<open>4 mod 3\<close> names the second.
\<close>

theorem getActiveKeyData_modulo_counterexample:
  "map_option kd_key (fst (getActiveKeyData (ex_narration_env 200) (ex_world 4)))
     = Some (Some ex_key_a)
   \<and> ex_keys ! nat (4 mod int (length ex_keys)) = ex_key_b
   \<and> ex_key_a \<noteq> ex_key_b"
  by (simp add: ex_narration_defs narration_defs)

subsection \<open>What the helpers of the narration leave unchanged\<close>

lemma notifyListeners_frame [simp]:
  "audioListeners (notifyListeners b w) = audioListeners w"
  "tts_calls (notifyListeners b w) = tts_calls w"
  "api_config (notifyListeners b w) = api_config w"
  "db_calls (notifyListeners b w) = db_calls w"
  "currentAudio (notifyListeners b w) = currentAudio w"
  "delivered (notifyListeners b w) = delivered w @ map (\<lambda>l. (l, b)) (audioListeners w)"
  by (simp_all add: notifyListeners_def)

lemma stopCurrentNarrative_frame [simp]:
  "audioListeners (stopCurrentNarrative w) = audioListeners w"
  "tts_calls (stopCurrentNarrative w) = tts_calls w"
  "api_config (stopCurrentNarrative w) = api_config w"
  "db_calls (stopCurrentNarrative w) = db_calls w"
  "currentAudio (stopCurrentNarrative w) = None"
  by (simp_all add: stopCurrentNarrative_def split: option.splits)

lemma stopCurrentNarrative_delivered:
  "delivered (stopCurrentNarrative w) =
     delivered w @ (case currentAudio w of None \<Rightarrow> []
                    | Some audio \<Rightarrow> map (\<lambda>l. (l, False)) (audioListeners w))"
  by (simp add: stopCurrentNarrative_def split: option.splits)

lemma getActiveKeyData_frame [simp]:
  "audioListeners (snd (getActiveKeyData env w)) = audioListeners w"
  "tts_calls (snd (getActiveKeyData env w)) = tts_calls w"
  "api_config (snd (getActiveKeyData env w)) = api_config w"
  "delivered (snd (getActiveKeyData env w)) = delivered w"
  "currentAudio (snd (getActiveKeyData env w)) = currentAudio w"
  by (simp_all add: getActiveKeyData_def Let_def split: option.splits)

lemma switchToNextKey_frame [simp]:
  "audioListeners (switchToNextKey env i w) = audioListeners w"
  "tts_calls (switchToNextKey env i w) = tts_calls w"
  "delivered (switchToNextKey env i w) = delivered w"
  "currentAudio (switchToNextKey env i w) = currentAudio w"
  by (simp_all add: switchToNextKey_def Let_def split: option.splits)

lemma last_delivered_notify:
  "l \<in> set (audioListeners w) \<Longrightarrow> last_delivered l (notifyListeners b w) = Some b"
proof -
  assume l: "l \<in> set (audioListeners w)"
  let ?new = "filter (\<lambda>d. fst d = l) (map (\<lambda>l. (l, b)) (audioListeners w))"
  have ne: "?new \<noteq> []" using l by (auto simp: filter_empty_conv)
  have "\<forall>d \<in> set ?new. snd d = b" by auto
  with ne have lst: "snd (last ?new) = b" using last_in_set by blast
  let ?all = "filter (\<lambda>d. fst d = l) (delivered w) @ ?new"
  from ne have "last ?all = last ?new" by simp
  moreover from ne have "?all \<noteq> []" by simp
  ultimately show ?thesis using lst
    by (cases ?all) (simp_all add: last_delivered_def)
qed

lemma ends_on_false_notify: "ends_on_false (notifyListeners False w)"
  by (simp add: ends_on_false_def last_delivered_notify)

subsection \<open>One call of playNarrative, case by case\<close>

lemma trim_whitespace: "(\<forall>c \<in> set text. isWhiteSpace c) \<Longrightarrow> trim text = []"
proof -
  assume "\<forall>c \<in> set text. isWhiteSpace c"
  then have "dropWhile isWhiteSpace text = []" by (metis dropWhile_eq_Nil_conv)
  then show ?thesis unfolding trim_def by (simp only: rev.simps dropWhile.simps)
qed

lemma catch_notify_Normal [simp]: "fst (catch_notify r) = Normal"
  by (cases r) (simp add: catch_notify_def split: completion.splits)

lemma playNarrative_exhausted:
  "3 < retryCount \<Longrightarrow> playNarrative env text retryCount w = (Normal, notifyListeners False w)"
  by (subst playNarrative.simps) simp

lemma playNarrative_not_speakable:
  "retryCount \<le> 3 \<Longrightarrow> \<not> speakable text \<Longrightarrow>
     playNarrative env text retryCount w = (Normal, stopCurrentNarrative w)"
  by (subst playNarrative.simps) (auto simp: speakable_def Let_def)

lemma playNarrative_no_key:
  assumes "retryCount \<le> 3" "speakable text"
    and "\<forall>kd k. fst (getActiveKeyData env (stopCurrentNarrative w)) = Some kd \<longrightarrow> kd_key kd = Some k \<longrightarrow> k = []"
  shows "playNarrative env text retryCount w =
     (Normal, notifyListeners False (snd (getActiveKeyData env (stopCurrentNarrative w))))"
  using assms
  by (subst playNarrative.simps)
     (auto simp: speakable_def Let_def split: prod.splits option.splits)

lemma playNarrative_attempt:
  assumes "retryCount \<le> 3" "speakable text"
    and "fst (getActiveKeyData env (stopCurrentNarrative w)) = Some kd"
    and "kd_key kd = Some k" "k \<noteq> []"
  shows "playNarrative env text retryCount w =
     catch_notify
       (case tts_reply_of env (length (tts_calls w)) of
          Tts_rejected \<Rightarrow> (Throw ''fetch'', attempt_world env text w k)
        | Tts_response st readable \<Rightarrow>
            if \<not> response_ok st then
              (if st = 401 \<or> st = 429 \<or> st = 402
               then playNarrative env text (retryCount + 1)
                      (switchToNextKey env (kd_index kd) (attempt_world env text w k))
               else (Throw ''ElevenLabs API Error'', attempt_world env text w k))
            else if \<not> readable then (Throw ''blob'', attempt_world env text w k)
            else (Normal, (attempt_world env text w k)\<lparr>currentAudio := Some (length (tts_calls w))\<rparr>))"
proof -
  obtain x2 where g: "getActiveKeyData env (stopCurrentNarrative w) = (Some kd, x2)"
    using assms(3) by (cases "getActiveKeyData env (stopCurrentNarrative w)") simp
  have t: "tts_calls x2 = tts_calls w"
    using getActiveKeyData_frame(2) [of env "stopCurrentNarrative w"] g by simp
  have a: "attempt_world env text w k
             = x2\<lparr>tts_calls := tts_calls x2 @ [(k, trim (strip_symbols text))]\<rparr>"
    using g t by (simp add: attempt_world_def)
  from assms(1,2,4,5) show ?thesis
    unfolding a t [symmetric]
    by (subst playNarrative.simps) (simp add: speakable_def Let_def g)
qed

lemma attempt_world_frame [simp]:
  "audioListeners (attempt_world env text w k) = audioListeners w"
  "tts_calls (attempt_world env text w k) = tts_calls w @ [(k, trim (strip_symbols text))]"
  "api_config (attempt_world env text w k) = api_config w"
  by (simp_all add: attempt_world_def)

lemma rotating_not_ok: "rotating_status st \<Longrightarrow> \<not> response_ok st"
  by (auto simp: rotating_status_def response_ok_def)

lemma playNarrative_cases:
  obtains (exhausted) "3 < retryCount"
  | (silent) "retryCount \<le> 3" "\<not> speakable t"
  | (no_key) "retryCount \<le> 3" "speakable t"
      "playNarrative env t retryCount w =
         (Normal, notifyListeners False (snd (getActiveKeyData env (stopCurrentNarrative w))))"
  | (attempt) kd k where "retryCount \<le> 3" "speakable t"
      "fst (getActiveKeyData env (stopCurrentNarrative w)) = Some kd"
      "kd_key kd = Some k" "k \<noteq> []"
proof (cases "3 < retryCount")
  case True
  then show ?thesis by (rule exhausted)
next
  case rc: False
  show ?thesis
  proof (cases "speakable t")
    case False
    with rc show ?thesis by (intro silent) simp_all
  next
    case sp: True
    show ?thesis
    proof (cases "\<exists>kd k. fst (getActiveKeyData env (stopCurrentNarrative w)) = Some kd
                    \<and> kd_key kd = Some k \<and> k \<noteq> []")
      case True
      with rc sp show ?thesis using attempt by force
    next
      case False
      then have "\<forall>kd k. fst (getActiveKeyData env (stopCurrentNarrative w)) = Some kd
                  \<longrightarrow> kd_key kd = Some k \<longrightarrow> k = []" by blast
      with rc sp have "playNarrative env t retryCount w =
         (Normal, notifyListeners False (snd (getActiveKeyData env (stopCurrentNarrative w))))"
        by (intro playNarrative_no_key) simp_all
      with rc sp show ?thesis by (intro no_key) simp_all
    qed
  qed
qed

subsection \<open>The claims on playNarrative\<close>

text \<open>
  Claim C10. For a text that is empty, only white space, or empty once the symbols are
  stripped and the rest is trimmed, a call (with the default \<open>retryCount\<close> 0, or any up
  to 3) returns normally without a database call, without a narration request and
  without a change of the persisted configuration. The only values delivered are the
  \<open>false\<close> that each listener receives when a narration was playing and is stopped.
\<close>

theorem playNarrative_unspeakable:
  assumes "retryCount \<le> 3"
    and "text = [] \<or> (\<forall>c \<in> set text. isWhiteSpace c) \<or> trim (strip_symbols text) = []"
  shows "fst (playNarrative env text retryCount w) = Normal
    \<and> db_calls (snd (playNarrative env text retryCount w)) = db_calls w
    \<and> tts_calls (snd (playNarrative env text retryCount w)) = tts_calls w
    \<and> api_config (snd (playNarrative env text retryCount w)) = api_config w
    \<and> delivered (snd (playNarrative env text retryCount w)) =
        delivered w @ (case currentAudio w of None \<Rightarrow> []
                       | Some audio \<Rightarrow> map (\<lambda>l. (l, False)) (audioListeners w))"
proof -
  from assms(2) have "\<not> speakable text" by (auto simp: speakable_def trim_whitespace)
  with assms(1) have "playNarrative env text retryCount w = (Normal, stopCurrentNarrative w)"
    by (rule playNarrative_not_speakable)
  then show ?thesis by (simp add: stopCurrentNarrative_delivered)
qed

theorem playNarrative_unspeakable_witness:
  "trim (strip_symbols ex_sparkles) = []
   \<and> fst (playNarrative (ex_narration_env 200) ex_sparkles 0 ex_world_playing) = Normal
   \<and> db_calls (snd (playNarrative (ex_narration_env 200) ex_sparkles 0 ex_world_playing)) = 0
   \<and> tts_calls (snd (playNarrative (ex_narration_env 200) ex_sparkles 0 ex_world_playing)) = []
   \<and> delivered (snd (playNarrative (ex_narration_env 200) ex_sparkles 0 ex_world_playing))
       = [(0, False), (1, False)]"
proof -
  have s: "trim (strip_symbols ex_sparkles) = []"
    by (simp add: ex_sparkles_def narration_defs)
  from s playNarrative_unspeakable [of 0 ex_sparkles "ex_narration_env 200" ex_world_playing]
  show ?thesis by (simp add: ex_world_playing_def ex_world_def)
qed

text \<open>
  Claim C9. When the answer to the narration request of a call has a status that is
  neither ok nor one of 401, 402 and 429, the call returns normally, the persisted
  configuration (and with it the rotation index) is as before, and at most that one
  request is made: there is no retry. When the request was made, every listener has
  last received \<open>false\<close>.
\<close>

theorem playNarrative_other_failure:
  assumes reply: "tts_reply_of env (length (tts_calls w)) = Tts_response st readable"
    and bad: "\<not> response_ok st"
    and other: "\<not> rotating_status st"
  shows "fst (playNarrative env text retryCount w) = Normal
    \<and> api_config (snd (playNarrative env text retryCount w)) = api_config w
    \<and> length (tts_calls (snd (playNarrative env text retryCount w))) \<le> length (tts_calls w) + 1
    \<and> (length (tts_calls (snd (playNarrative env text retryCount w))) = length (tts_calls w) + 1
         \<longrightarrow> ends_on_false (snd (playNarrative env text retryCount w)))"
proof (cases rule: playNarrative_cases [where retryCount = retryCount and t = "text" and env = env and w = w])
  case exhausted
  then show ?thesis by (simp add: playNarrative_exhausted)
next
  case silent
  then show ?thesis by (simp add: playNarrative_not_speakable)
next
  case no_key
  then show ?thesis by simp
next
  case (attempt kd k)
  from other have "\<not> (st = 401 \<or> st = 429 \<or> st = 402)" by (auto simp: rotating_status_def)
  with bad reply have "playNarrative env text retryCount w =
      (Normal, notifyListeners False (attempt_world env text w k))"
    by (simp add: playNarrative_attempt [OF attempt] catch_notify_def)
  then show ?thesis by (simp add: ends_on_false_notify)
qed

theorem playNarrative_other_failure_witness:
  "tts_reply_of (ex_narration_env 500) (length (tts_calls (ex_world 0))) = Tts_response 500 True
   \<and> fst (playNarrative (ex_narration_env 500) ex_hello 0 (ex_world 0)) = Normal
   \<and> api_config (snd (playNarrative (ex_narration_env 500) ex_hello 0 (ex_world 0)))
       = api_config (ex_world 0)
   \<and> length (tts_calls (snd (playNarrative (ex_narration_env 500) ex_hello 0 (ex_world 0)))) = 1
   \<and> ends_on_false (snd (playNarrative (ex_narration_env 500) ex_hello 0 (ex_world 0)))"
proof -
  have r: "tts_reply_of (ex_narration_env 500) (length (tts_calls (ex_world 0))) = Tts_response 500 True"
    by (simp add: ex_narration_env_def)
  have b: "\<not> response_ok 500" by (simp add: response_ok_def)
  have o: "\<not> rotating_status 500" by (simp add: rotating_status_def)
  have c: "length (tts_calls (snd (playNarrative (ex_narration_env 500) ex_hello 0 (ex_world 0)))) = 1"
    by (simp add: playNarrative.simps ex_narration_defs narration_defs)
  have z: "length (tts_calls (ex_world 0)) = 0" by (simp add: ex_world_def)
  from r c z playNarrative_other_failure [OF r b o, of ex_hello 0]
  show ?thesis by simp
qed

lemma catch_notify_id: "fst r = Normal \<Longrightarrow> catch_notify r = r"
  by (cases r) (simp add: catch_notify_def)

lemma playNarrative_rotating:
  assumes all: "\<forall>n. \<exists>st r. tts_reply_of env n = Tts_response st r \<and> rotating_status st"
  shows "fst (playNarrative env text rc w) = Normal
    \<and> audioListeners (snd (playNarrative env text rc w)) = audioListeners w
    \<and> length (tts_calls (snd (playNarrative env text rc w))) \<le> length (tts_calls w) + (4 - rc)
    \<and> (speakable text \<or> 3 < rc \<longrightarrow> ends_on_false (snd (playNarrative env text rc w)))
    \<and> (\<not> speakable text \<longrightarrow> tts_calls (snd (playNarrative env text rc w)) = tts_calls w)"
proof (induction "4 - rc" arbitrary: rc w)
  case 0
  then have "3 < rc" by simp
  then show ?case by (simp add: playNarrative_exhausted ends_on_false_notify)
next
  case (Suc n)
  show ?case
  proof (cases rule: playNarrative_cases [where retryCount = rc and t = "text" and env = env and w = w])
    case exhausted
    then show ?thesis by (simp add: playNarrative_exhausted ends_on_false_notify)
  next
    case silent
    then show ?thesis by (simp add: playNarrative_not_speakable)
  next
    case no_key
    then show ?thesis by (simp add: ends_on_false_notify)
  next
    case (attempt kd k)
    from all obtain st r where
      reply: "tts_reply_of env (length (tts_calls w)) = Tts_response st r" and
      rot: "rotating_status st" by blast
    let ?w2 = "switchToNextKey env (kd_index kd) (attempt_world env text w k)"
    let ?next = "playNarrative env text (rc + 1) ?w2"
    from Suc.hyps(2) have n: "n = 4 - (rc + 1)" by simp
    note IH = Suc.hyps(1) [OF n, of ?w2]
    from rot have "st = 401 \<or> st = 429 \<or> st = 402" by (auto simp: rotating_status_def)
    with reply rotating_not_ok [OF rot]
    have "playNarrative env text rc w = catch_notify ?next"
      by (simp add: playNarrative_attempt [OF attempt])
    with IH have e: "playNarrative env text rc w = ?next" by (simp add: catch_notify_id)
    from IH attempt(1,2) show ?thesis unfolding e by auto
  qed
qed

text \<open>
  Claim C3. When every narration request is answered with status 401, 402 or 429, a call
  \<open>playNarrative(text)\<close> returns normally (it never throws), makes at most four
  requests (the first attempt and three retries), and, as soon as it made a request at
  all, so in particular when the fourth attempt failed and the bound on the retries
  ended the call, the last value that every listener received is \<open>false\<close>.
\<close>

theorem playNarrative_bounded_retries:
  assumes "\<forall>n. \<exists>st r. tts_reply_of env n = Tts_response st r \<and> rotating_status st"
  shows "fst (playNarrative env text 0 w) = Normal
    \<and> length (tts_calls (snd (playNarrative env text 0 w))) \<le> length (tts_calls w) + 4
    \<and> (length (tts_calls w) < length (tts_calls (snd (playNarrative env text 0 w)))
         \<longrightarrow> ends_on_false (snd (playNarrative env text 0 w)))"
  using playNarrative_rotating [OF assms, of "text" 0 w] by auto

theorem playNarrative_bounded_retries_witness:
  "(\<forall>n. \<exists>st r. tts_reply_of (ex_narration_env 429) n = Tts_response st r \<and> rotating_status st)
   \<and> fst (playNarrative (ex_narration_env 429) ex_hello 0 (ex_world 0)) = Normal
   \<and> length (tts_calls (snd (playNarrative (ex_narration_env 429) ex_hello 0 (ex_world 0)))) = 4
   \<and> ends_on_false (snd (playNarrative (ex_narration_env 429) ex_hello 0 (ex_world 0)))"
proof -
  have h: "\<forall>n. \<exists>st r. tts_reply_of (ex_narration_env 429) n = Tts_response st r \<and> rotating_status st"
    by (auto simp: ex_narration_env_def rotating_status_def)
  have c: "length (tts_calls (snd (playNarrative (ex_narration_env 429) ex_hello 0 (ex_world 0)))) = 4"
    by (simp add: playNarrative.simps ex_narration_defs narration_defs)
  have z: "length (tts_calls (ex_world 0)) = 0" by (simp add: ex_world_def)
  from h c z playNarrative_bounded_retries [OF h, of ex_hello "ex_world 0"]
  show ?thesis by simp
qed

end
